theory Spec2Isabelle
  imports Main
begin

section \<open>The fasm assembler (src/fasm.py)\<close>

text \<open>
  fasm.py reads an assembly source, parses it with parsy combinators into a list of
  nodes, populates a label table in a first loop over the nodes, renders one
  instruction text per opcode node in a second loop, and writes one
  \<^verbatim>\<open>alias\<close> line per instruction.

  A \<^typ>\<open>char\<close> stands for one code point of the Python \<^verbatim>\<open>str\<close>; the model covers
  the code points 0..255. Python's \<^verbatim>\<open>float\<close> and the text \<^verbatim>\<open>str\<close> gives for a float
  are builtins of the language, not code of the program: the float type is the type
  parameter \<open>'f\<close>, and the two builtins are the parameters \<open>to_float\<close>
  (\<^verbatim>\<open>float(s)\<close>) and \<open>float_str\<close> (\<^verbatim>\<open>str(x)\<close>). Python's \<^verbatim>\<open>int\<close> is \<^typ>\<open>int\<close>,
  without the bound an interpreter may put on the number of digits \<^verbatim>\<open>int\<close> and \<^verbatim>\<open>str\<close>
  convert.

  A parsy parser is called with the whole text and an index; here a parser takes the
  text from the index on and returns what is left of it. The only pattern that looks
  behind the index is the \<^verbatim>\<open>\b\<close> of \<^verbatim>\<open>literal\<close>, and it looks at the last character of
  the keyword just matched. The position and the expectations a parsy \<^verbatim>\<open>ParseError\<close>
  carries are left out.
\<close>

subsection \<open>Character classes of the regular expressions\<close>

text \<open>\<^verbatim>\<open>\s\<close> on a \<^verbatim>\<open>str\<close> pattern: the white space code points below 256.\<close>

definition is_space :: "char \<Rightarrow> bool" where
  "is_space c =
     (let n = (of_char c :: nat)
      in (9 \<le> n \<and> n \<le> 13) \<or> (28 \<le> n \<and> n \<le> 32) \<or> n = 133 \<or> n = 160)"

text \<open>\<^verbatim>\<open>[0-9]\<close>\<close>

definition is_digit :: "char \<Rightarrow> bool" where
  "is_digit c = (let n = (of_char c :: nat) in 48 \<le> n \<and> n \<le> 57)"

text \<open>\<^verbatim>\<open>[A-Za-z_]\<close>\<close>

definition is_ident_start :: "char \<Rightarrow> bool" where
  "is_ident_start c =
     (let n = (of_char c :: nat)
      in (65 \<le> n \<and> n \<le> 90) \<or> (97 \<le> n \<and> n \<le> 122) \<or> n = 95)"

text \<open>\<^verbatim>\<open>[A-Za-z0-9_]\<close>\<close>

definition is_ident_char :: "char \<Rightarrow> bool" where
  "is_ident_char c = (is_ident_start c \<or> is_digit c)"

text \<open>\<^verbatim>\<open>\w\<close> on a \<^verbatim>\<open>str\<close> pattern: the alphanumeric code points below 256 and the
  underscore.\<close>

definition is_word :: "char \<Rightarrow> bool" where
  "is_word c =
     (let n = (of_char c :: nat)
      in (48 \<le> n \<and> n \<le> 57) \<or> (65 \<le> n \<and> n \<le> 90) \<or> n = 95 \<or> (97 \<le> n \<and> n \<le> 122)
         \<or> n = 170 \<or> n = 178 \<or> n = 179 \<or> n = 181 \<or> n = 185 \<or> n = 186
         \<or> (188 \<le> n \<and> n \<le> 190) \<or> (192 \<le> n \<and> n \<le> 214) \<or> (216 \<le> n \<and> n \<le> 246)
         \<or> (248 \<le> n \<and> n \<le> 255))"

text \<open>\<^verbatim>\<open>\b\<close> between two neighbouring positions: exactly one side is a word
  character; a missing neighbour (start or end of the text) is no word character.\<close>

definition word_boundary :: "char option \<Rightarrow> char option \<Rightarrow> bool" where
  "word_boundary prev nxt =
     ((case prev of None \<Rightarrow> False | Some c \<Rightarrow> is_word c)
      \<noteq> (case nxt of None \<Rightarrow> False | Some c \<Rightarrow> is_word c))"

subsection \<open>Python's conversions between integers and text\<close>

definition digit_char :: "nat \<Rightarrow> char" where
  "digit_char d = char_of (48 + d)"

text \<open>\<^verbatim>\<open>str(n)\<close> for \<open>n \<ge> 0\<close>\<close>

fun str_nat :: "nat \<Rightarrow> string" where
  "str_nat n = (if n < 10 then [digit_char n] else str_nat (n div 10) @ [digit_char (n mod 10)])"

declare str_nat.simps [simp del]

text \<open>\<^verbatim>\<open>str(i)\<close>\<close>

definition str_int :: "int \<Rightarrow> string" where
  "str_int i = (if i < 0 then CHR ''-'' # str_nat (nat (- i)) else str_nat (nat i))"

text \<open>\<^verbatim>\<open>int(s)\<close> on a text of decimal digits\<close>

definition int_py :: "string \<Rightarrow> int" where
  "int_py s = foldl (\<lambda>a c. 10 * a + (int (of_char c) - 48)) 0 s"

subsection \<open>Values and nodes\<close>

text \<open>The value of an operand: \<^verbatim>\<open>int\<close>, \<^verbatim>\<open>float\<close> or \<^verbatim>\<open>str\<close>.\<close>

datatype 'f arg = AInt int | AFloat 'f | AStr string

text \<open>What an opcode parser returns before \<^verbatim>\<open>opcode\<close> maps it: a \<^verbatim>\<open>str\<close>, or the
  two-element list of \<^verbatim>\<open>seq\<close>.\<close>

datatype 'f parsed = Word string | Two string "'f arg"

text \<open>The dictionaries \<^verbatim>\<open>{"type": "label", "value": name}\<close> and
  \<^verbatim>\<open>{"type": "opcode", "value": {"opcode": opcode, "arg": arg}}\<close>.\<close>

datatype 'f node = LabelNode string | OpcodeNode string "'f arg option"

datatype error = InputNotFound | ParseError | UndefinedLabel string

subsection \<open>parsy combinators\<close>

text \<open>A parser reads a prefix of the remaining text and returns its result with the
  text that is left, or fails.\<close>

type_synonym 'a parser = "string \<Rightarrow> ('a \<times> string) option"

text \<open>\<^verbatim>\<open>p << q\<close>\<close>

definition skip :: "'a parser \<Rightarrow> 'b parser \<Rightarrow> 'a parser" where
  "skip p q s =
     (case p s of None \<Rightarrow> None
      | Some (a, r) \<Rightarrow> (case q r of None \<Rightarrow> None | Some (b, r') \<Rightarrow> Some (a, r')))"

text \<open>\<^verbatim>\<open>p >> q\<close>\<close>

definition then_p :: "'a parser \<Rightarrow> 'b parser \<Rightarrow> 'b parser" where
  "then_p p q s = (case p s of None \<Rightarrow> None | Some (a, r) \<Rightarrow> q r)"

text \<open>\<^verbatim>\<open>p | q\<close>: \<open>q\<close> is tried on the same text when \<open>p\<close> fails.\<close>

definition alt :: "'a parser \<Rightarrow> 'a parser \<Rightarrow> 'a parser" where
  "alt p q s = (case p s of Some x \<Rightarrow> Some x | None \<Rightarrow> q s)"

text \<open>\<^verbatim>\<open>p.map(f)\<close>\<close>

definition map_p :: "('a \<Rightarrow> 'b) \<Rightarrow> 'a parser \<Rightarrow> 'b parser" where
  "map_p f p s = (case p s of None \<Rightarrow> None | Some (a, r) \<Rightarrow> Some (f a, r))"

text \<open>\<^verbatim>\<open>p.result(v)\<close>\<close>

definition result :: "'b \<Rightarrow> 'a parser \<Rightarrow> 'b parser" where
  "result v p = map_p (\<lambda>_. v) p"

text \<open>\<^verbatim>\<open>seq(p, q)\<close>: the list of the two results.\<close>

definition seq :: "string parser \<Rightarrow> 'f arg parser \<Rightarrow> 'f parsed parser" where
  "seq p q s =
     (case p s of None \<Rightarrow> None
      | Some (a, r) \<Rightarrow> (case q r of None \<Rightarrow> None | Some (b, r') \<Rightarrow> Some (Two a b, r')))"

text \<open>\<^verbatim>\<open>p + q\<close> on two parsers of \<^verbatim>\<open>str\<close>: \<^verbatim>\<open>seq(p, q).combine(operator.add)\<close>, the two
  texts joined.\<close>

definition plus_p :: "string parser \<Rightarrow> string parser \<Rightarrow> string parser" where
  "plus_p p q s =
     (case p s of None \<Rightarrow> None
      | Some (a, r) \<Rightarrow> (case q r of None \<Rightarrow> None | Some (b, r') \<Rightarrow> Some (a @ b, r')))"

text \<open>\<^verbatim>\<open>string(w)\<close>\<close>

definition string_p :: "string \<Rightarrow> string parser" where
  "string_p w s = (if take (length w) s = w then Some (w, drop (length w) s) else None)"

text \<open>A \<^verbatim>\<open>str\<close> result among results that may be lists.\<close>

definition word :: "string parser \<Rightarrow> 'f parsed parser" where
  "word p = map_p Word p"

subsection \<open>The grammar\<close>

text \<open>\<^verbatim>\<open>WHITESPACE = regex(r"\s*")\<close>\<close>

definition WHITESPACE :: "string parser" where
  "WHITESPACE s = Some (takeWhile is_space s, dropWhile is_space s)"

text \<open>\<^verbatim>\<open>token(parser) = parser << WHITESPACE\<close>\<close>

definition token :: "'a parser \<Rightarrow> 'a parser" where
  "token parser = skip parser WHITESPACE"

text \<open>\<^verbatim>\<open>regex(word + r"\b")\<close> for a word of letters: the word itself, then a word
  boundary between the last character of the word and the character that follows.\<close>

definition regex_word :: "string \<Rightarrow> string parser" where
  "regex_word w s =
     (if take (length w) s = w
         \<and> word_boundary (if w = [] then None else Some (last w))
                          (case drop (length w) s of [] \<Rightarrow> None | c # _ \<Rightarrow> Some c)
      then Some (w, drop (length w) s) else None)"

text \<open>\<^verbatim>\<open>literal(word) = token(regex(word + r"\b")).desc(word)\<close>\<close>

definition literal :: "string \<Rightarrow> string parser" where
  "literal w = token (regex_word w)"

text \<open>\<^verbatim>\<open>IDENTIFIER = regex("[A-Za-z_]+[A-Za-z0-9_]*")\<close>\<close>

definition IDENTIFIER :: "string parser" where
  "IDENTIFIER s =
     (case s of [] \<Rightarrow> None
      | c # cs \<Rightarrow>
          if is_ident_start c
          then Some (c # takeWhile is_ident_char cs, dropWhile is_ident_char cs)
          else None)"

definition COLON :: "string parser" where
  "COLON = string_p '':''"

definition FORWARD_SLASH :: "string parser" where
  "FORWARD_SLASH = string_p ''/''"

text \<open>\<^verbatim>\<open>INTEGER = regex("[0-9]+").map(int)\<close>\<close>

definition INTEGER :: "'f arg parser" where
  "INTEGER s =
     (let ds = takeWhile is_digit s
      in if ds = [] then None else Some (AInt (int_py ds), dropWhile is_digit s))"

text \<open>\<^verbatim>\<open>FLOAT = regex("[0-9]*[.][0-9]+").map(float)\<close>\<close>

definition FLOAT :: "(string \<Rightarrow> 'f) \<Rightarrow> 'f arg parser" where
  "FLOAT to_float s =
     (case dropWhile is_digit s of [] \<Rightarrow> None
      | c # r \<Rightarrow>
          if c = CHR ''.'' \<and> takeWhile is_digit r \<noteq> []
          then Some (AFloat (to_float (takeWhile is_digit s @ CHR ''.'' # takeWhile is_digit r)),
                     dropWhile is_digit r)
          else None)"

definition NUMBER :: "(string \<Rightarrow> 'f) \<Rightarrow> 'f arg parser" where
  "NUMBER to_float = alt (FLOAT to_float) INTEGER"

definition TRUE :: "'f arg parser" where
  "TRUE = result (AInt 1) (literal ''true'')"

definition FALSE :: "'f arg parser" where
  "FALSE = result (AInt 0) (literal ''false'')"

definition BOOLEAN :: "'f arg parser" where
  "BOOLEAN = alt TRUE FALSE"

text \<open>\<^verbatim>\<open>label(result)\<close>\<close>

definition label :: "string \<Rightarrow> 'f node" where
  "label r = LabelNode r"

definition LABEL :: "'f node parser" where
  "LABEL = map_p label (token (skip IDENTIFIER COLON))"

definition PUSH :: "(string \<Rightarrow> 'f) \<Rightarrow> 'f parsed parser" where
  "PUSH to_float =
     seq (literal ''push'')
         (alt (alt (NUMBER to_float) BOOLEAN) (map_p AStr (plus_p FORWARD_SLASH IDENTIFIER)))"

definition POP :: "string parser" where "POP = literal ''pop''"
definition DUP :: "string parser" where "DUP = literal ''dup''"
definition DOT :: "string parser" where "DOT = literal ''dot''"

definition STACK_OP :: "(string \<Rightarrow> 'f) \<Rightarrow> 'f parsed parser" where
  "STACK_OP to_float = alt (alt (alt (PUSH to_float) (word POP)) (word DUP)) (word DOT)"

definition ADD :: "string parser" where "ADD = literal ''add''"
definition SUB :: "string parser" where "SUB = literal ''sub''"
definition MUL :: "string parser" where "MUL = literal ''mul''"
definition DIV :: "string parser" where "DIV = literal ''div''"
definition POW :: "string parser" where "POW = literal ''pow''"
definition MIN_op :: "string parser" where "MIN_op = literal ''min''"
definition MAX_op :: "string parser" where "MAX_op = literal ''max''"

definition ARITHMETIC_OP :: "string parser" where
  "ARITHMETIC_OP = alt (alt (alt (alt (alt (alt ADD SUB) MUL) DIV) POW) MIN_op) MAX_op"

definition JMP :: "string parser" where "JMP = literal ''jmp''"
definition JIF :: "string parser" where "JIF = literal ''jif''"
definition CALL :: "string parser" where "CALL = literal ''call''"
definition RET :: "string parser" where "RET = literal ''ret''"

definition BRANCH_OP :: "'f parsed parser" where
  "BRANCH_OP = alt (seq (alt (alt JMP JIF) CALL) (map_p AStr IDENTIFIER)) (word RET)"

definition EQ :: "string parser" where "EQ = result ''iseq'' (literal ''eq'')"
definition NE :: "string parser" where "NE = result ''isneq'' (literal ''ne'')"
definition LT :: "string parser" where "LT = result ''islt'' (literal ''lt'')"
definition LE :: "string parser" where "LE = result ''isle'' (literal ''le'')"
definition GT :: "string parser" where "GT = result ''isgt'' (literal ''gt'')"
definition GE :: "string parser" where "GE = result ''isge'' (literal ''ge'')"

definition LOGICAL_OP :: "string parser" where
  "LOGICAL_OP = alt (alt (alt (alt (alt EQ NE) LT) LE) GT) GE"

definition STORE :: "string parser" where "STORE = result ''store_l'' (literal ''store'')"
definition LOAD :: "string parser" where "LOAD = result ''load_l'' (literal ''load'')"
definition GSTORE :: "string parser" where "GSTORE = result ''store_g'' (literal ''gstore'')"
definition GLOAD :: "string parser" where "GLOAD = result ''load_g'' (literal ''gload'')"

definition IO_OP :: "'f parsed parser" where
  "IO_OP = seq (alt (alt (alt STORE LOAD) GSTORE) GLOAD) (map_p AStr IDENTIFIER)"

definition HLT :: "string parser" where "HLT = literal ''hlt''"

text \<open>\<^verbatim>\<open>opcode(result)\<close>: a list is an opcode with its argument.\<close>

fun opcode :: "'f parsed \<Rightarrow> 'f node" where
  "opcode (Two op a) = OpcodeNode op (Some a)"
| "opcode (Word op) = OpcodeNode op None"

definition OPCODE_alt :: "(string \<Rightarrow> 'f) \<Rightarrow> 'f parsed parser" where
  "OPCODE_alt to_float =
     alt (alt (alt (alt (alt (STACK_OP to_float) (word ARITHMETIC_OP)) BRANCH_OP)
                   (word LOGICAL_OP)) IO_OP) (word HLT)"

definition OPCODE :: "(string \<Rightarrow> 'f) \<Rightarrow> 'f node parser" where
  "OPCODE to_float = map_p opcode (token (OPCODE_alt to_float))"

definition statement :: "(string \<Rightarrow> 'f) \<Rightarrow> 'f node parser" where
  "statement to_float = alt LABEL (OPCODE to_float)"

subsection \<open>Every statement reads at least one character\<close>

text \<open>\<open>reads p\<close>: what \<open>p\<close> leaves is a suffix of its input; \<open>reads1 p\<close>: a proper
  suffix.\<close>

definition reads :: "'a parser \<Rightarrow> bool" where
  "reads p = (\<forall>s a r. p s = Some (a, r) \<longrightarrow> (\<exists>c. s = c @ r))"

definition reads1 :: "'a parser \<Rightarrow> bool" where
  "reads1 p = (\<forall>s a r. p s = Some (a, r) \<longrightarrow> (\<exists>c. c \<noteq> [] \<and> s = c @ r))"

lemma reads1_reads: "reads1 p \<Longrightarrow> reads p"
  unfolding reads1_def reads_def by blast

lemma reads_WHITESPACE: "reads WHITESPACE"
  unfolding reads_def WHITESPACE_def by (metis option.inject prod.inject takeWhile_dropWhile_id)

lemma take_drop_eq: "take (length w) s = w \<Longrightarrow> s = w @ drop (length w) s"
  by (metis append_take_drop_id)

lemma reads1_string_p: "w \<noteq> [] \<Longrightarrow> reads1 (string_p w)"
  unfolding reads1_def string_p_def by (auto split: if_splits dest: take_drop_eq)

lemma reads1_regex_word: "w \<noteq> [] \<Longrightarrow> reads1 (regex_word w)"
  unfolding reads1_def regex_word_def by (auto split: if_splits dest: take_drop_eq)

lemma reads1_IDENTIFIER: "reads1 IDENTIFIER"
proof -
  have "\<exists>c. c \<noteq> [] \<and> s = c @ r" if "IDENTIFIER s = Some (a, r)" for s a r
  proof (cases s)
    case Nil
    with that show ?thesis by (simp add: IDENTIFIER_def)
  next
    case (Cons x xs)
    with that have "r = dropWhile is_ident_char xs"
      by (auto simp: IDENTIFIER_def split: if_splits)
    then have "s = (x # takeWhile is_ident_char xs) @ r"
      using Cons by simp
    then show ?thesis by blast
  qed
  then show ?thesis unfolding reads1_def by blast
qed

lemma reads1_INTEGER: "reads1 INTEGER"
proof -
  have "\<exists>c. c \<noteq> [] \<and> s = c @ r" if "INTEGER s = Some (a, r)" for s and a :: "'a arg" and r
  proof -
    from that have "takeWhile is_digit s \<noteq> []" and "r = dropWhile is_digit s"
      by (auto simp: INTEGER_def Let_def split: if_splits)
    then have "takeWhile is_digit s \<noteq> [] \<and> s = takeWhile is_digit s @ r"
      by simp
    then show ?thesis by blast
  qed
  then show ?thesis unfolding reads1_def by blast
qed

lemma reads1_FLOAT: "reads1 (FLOAT tf)"
proof -
  have "\<exists>c. c \<noteq> [] \<and> s = c @ r" if "FLOAT tf s = Some (a, r)" for s a r
  proof -
    from that obtain t where t: "dropWhile is_digit s = CHR ''.'' # t" "r = dropWhile is_digit t"
      by (auto simp: FLOAT_def split: list.splits if_splits)
    have "s = takeWhile is_digit s @ dropWhile is_digit s" by simp
    also have "\<dots> = (takeWhile is_digit s @ CHR ''.'' # takeWhile is_digit t) @ r"
      using t by simp
    finally show ?thesis by blast
  qed
  then show ?thesis unfolding reads1_def by blast
qed

lemma reads1_skip: "reads1 p \<Longrightarrow> reads q \<Longrightarrow> reads1 (skip p q)"
  unfolding reads1_def reads_def skip_def
  by (fastforce split: option.splits prod.splits)

lemma reads1_seq: "reads1 p \<Longrightarrow> reads q \<Longrightarrow> reads1 (seq p q)"
  unfolding reads1_def reads_def seq_def
  by (fastforce split: option.splits prod.splits)

lemma reads1_plus_p: "reads1 p \<Longrightarrow> reads q \<Longrightarrow> reads1 (plus_p p q)"
  unfolding reads1_def reads_def plus_p_def
  by (fastforce split: option.splits prod.splits)

lemma reads1_alt: "reads1 p \<Longrightarrow> reads1 q \<Longrightarrow> reads1 (alt p q)"
  unfolding reads1_def alt_def by (auto split: option.splits)

lemma reads1_map_p: "reads1 p \<Longrightarrow> reads1 (map_p f p)"
  unfolding reads1_def map_p_def by (auto split: option.splits)

lemma reads1_result: "reads1 p \<Longrightarrow> reads1 (result v p)"
  unfolding result_def by (rule reads1_map_p)

lemma reads1_word: "reads1 p \<Longrightarrow> reads1 (word p)"
  unfolding word_def by (rule reads1_map_p)

lemma reads1_token: "reads1 p \<Longrightarrow> reads1 (token p)"
  unfolding token_def by (rule reads1_skip) (simp_all add: reads_WHITESPACE)

lemma reads1_literal: "w \<noteq> [] \<Longrightarrow> reads1 (literal w)"
  unfolding literal_def by (rule reads1_token) (rule reads1_regex_word)

lemmas reads1_intros =
  reads1_alt reads1_seq reads1_plus_p reads1_skip reads1_map_p reads1_result reads1_word
  reads1_token reads1_literal reads1_string_p reads1_IDENTIFIER reads1_INTEGER reads1_FLOAT
  reads1_reads

lemma reads1_LABEL: "reads1 LABEL"
  unfolding LABEL_def COLON_def by (intro reads1_intros) simp_all

lemma reads1_STACK_OP: "reads1 (STACK_OP tf)"
  unfolding STACK_OP_def PUSH_def NUMBER_def BOOLEAN_def TRUE_def FALSE_def FORWARD_SLASH_def
    POP_def DUP_def DOT_def
  by (intro reads1_intros) simp_all

lemma reads1_ARITHMETIC_OP: "reads1 ARITHMETIC_OP"
  unfolding ARITHMETIC_OP_def ADD_def SUB_def MUL_def DIV_def POW_def MIN_op_def MAX_op_def
  by (intro reads1_intros) simp_all

lemma reads1_BRANCH_OP: "reads1 BRANCH_OP"
  unfolding BRANCH_OP_def JMP_def JIF_def CALL_def RET_def
  by (intro reads1_intros) simp_all

lemma reads1_LOGICAL_OP: "reads1 LOGICAL_OP"
  unfolding LOGICAL_OP_def EQ_def NE_def LT_def LE_def GT_def GE_def
  by (intro reads1_intros) simp_all

lemma reads1_IO_OP: "reads1 IO_OP"
  unfolding IO_OP_def STORE_def LOAD_def GSTORE_def GLOAD_def
  by (intro reads1_intros) simp_all

lemma reads1_OPCODE: "reads1 (OPCODE tf)"
  unfolding OPCODE_def OPCODE_alt_def HLT_def
  by (intro reads1_intros reads1_STACK_OP reads1_ARITHMETIC_OP reads1_BRANCH_OP
      reads1_LOGICAL_OP reads1_IO_OP) simp_all

lemma reads1_statement: "reads1 (statement tf)"
  unfolding statement_def by (intro reads1_alt reads1_LABEL reads1_OPCODE)

lemma statement_shorter: "statement tf s = Some (v, r) \<Longrightarrow> length r < length s"
  using reads1_statement [of tf] unfolding reads1_def by fastforce

subsection \<open>The main parser\<close>

text \<open>\<^verbatim>\<open>statement.many()\<close>: the statement parser is run until it fails; the results
  so far are the value, and the text is left where the last success ended.\<close>

function statement_many :: "(string \<Rightarrow> 'f) \<Rightarrow> string \<Rightarrow> 'f node list \<times> string" where
  "statement_many to_float s =
     (case statement to_float s of
        None \<Rightarrow> ([], s)
      | Some (v, r) \<Rightarrow> (case statement_many to_float r of (vs, r') \<Rightarrow> (v # vs, r')))"
  by pat_completeness auto
termination
  by (relation "measure (\<lambda>(to_float, s). length s)") (auto dest: statement_shorter)

declare statement_many.simps [simp del]

definition many :: "(string \<Rightarrow> 'f) \<Rightarrow> 'f node list parser" where
  "many to_float s = Some (statement_many to_float s)"

text \<open>\<^verbatim>\<open>program = WHITESPACE >> statement.many()\<close>\<close>

definition program :: "(string \<Rightarrow> 'f) \<Rightarrow> 'f node list parser" where
  "program to_float = then_p WHITESPACE (many to_float)"

text \<open>\<^verbatim>\<open>eof\<close> succeeds at the end of the text only.\<close>

definition eof :: "unit parser" where
  "eof s = (if s = [] then Some ((), s) else None)"

text \<open>\<^verbatim>\<open>p.parse(stream)\<close>: \<^verbatim>\<open>(p << eof)\<close> on the whole text; a failure raises
  \<^verbatim>\<open>ParseError\<close>.\<close>

definition parse :: "'a parser \<Rightarrow> string \<Rightarrow> error + 'a" where
  "parse p stream = (case skip p eof stream of None \<Rightarrow> Inl ParseError | Some (v, _) \<Rightarrow> Inr v)"

subsection \<open>The label table\<close>

text \<open>The first loop over \<^verbatim>\<open>ast\<close>, on the state \<^verbatim>\<open>(address_counter, labels)\<close>. A node
  is a label or an opcode, so the branch that raises on another type is never
  taken.\<close>

fun populate :: "'f node list \<Rightarrow> nat \<times> (string \<rightharpoonup> nat) \<Rightarrow> nat \<times> (string \<rightharpoonup> nat)" where
  "populate [] st = st"
| "populate (LabelNode l # ast) (address_counter, labels) =
     populate ast (address_counter, labels(l \<mapsto> address_counter))"
| "populate (OpcodeNode op a # ast) (address_counter, labels) =
     populate ast (address_counter + 1, labels)"

definition label_table :: "'f node list \<Rightarrow> (string \<rightharpoonup> nat)" where
  "label_table ast = snd (populate ast (0, Map.empty))"

subsection \<open>Code generation\<close>

text \<open>The text of an argument in an f-string.\<close>

fun arg_str :: "('f \<Rightarrow> string) \<Rightarrow> 'f arg \<Rightarrow> string" where
  "arg_str float_str (AInt i) = str_int i"
| "arg_str float_str (AFloat x) = float_str x"
| "arg_str float_str (AStr s) = s"

text \<open>\<^verbatim>\<open>labels[label_name]\<close>, guarded by \<^verbatim>\<open>label_name not in labels.keys()\<close>: the
  keys of the table are texts, so a number is no key.\<close>

fun lookup :: "(string \<rightharpoonup> nat) \<Rightarrow> 'f arg \<Rightarrow> nat option" where
  "lookup labels (AStr s) = labels s"
| "lookup labels (AInt i) = None"
| "lookup labels (AFloat x) = None"

text \<open>\<^verbatim>\<open>opcode in ("call", "jmp", "jif")\<close>\<close>

definition is_branch :: "string \<Rightarrow> bool" where
  "is_branch op = (op = ''call'' \<or> op = ''jmp'' \<or> op = ''jif'')"

text \<open>The text appended to \<^verbatim>\<open>instructions\<close> for one opcode node, or the exception
  for an undefined label.\<close>

definition render :: "('f \<Rightarrow> string) \<Rightarrow> (string \<rightharpoonup> nat) \<Rightarrow> string \<Rightarrow> 'f arg option \<Rightarrow> error + string" where
  "render float_str labels op arg =
     (case arg of
        None \<Rightarrow> Inr op
      | Some a \<Rightarrow>
          if is_branch op
          then (case lookup labels a of
                  None \<Rightarrow> Inl (UndefinedLabel (arg_str float_str a))
                | Some label_address \<Rightarrow> Inr (op @ '' '' @ str_nat label_address))
          else Inr (op @ '' '' @ arg_str float_str a))"

text \<open>The second loop over \<^verbatim>\<open>ast\<close>, on the state \<^verbatim>\<open>(address_counter, instructions)\<close>;
  a label node is skipped by \<^verbatim>\<open>continue\<close>.\<close>

fun generate ::
  "('f \<Rightarrow> string) \<Rightarrow> (string \<rightharpoonup> nat) \<Rightarrow> 'f node list \<Rightarrow> nat \<times> string list
    \<Rightarrow> error + nat \<times> string list" where
  "generate float_str labels [] st = Inr st"
| "generate float_str labels (LabelNode l # ast) st = generate float_str labels ast st"
| "generate float_str labels (OpcodeNode op arg # ast) (address_counter, instructions) =
     (case render float_str labels op arg of
        Inl e \<Rightarrow> Inl e
      | Inr text \<Rightarrow> generate float_str labels ast (address_counter + 1, instructions @ [text]))"

subsection \<open>Linking and the whole run\<close>

text \<open>\<^verbatim>\<open>f'alias __svm.{index} "{instruction}"\n'\<close>\<close>

definition directive :: "nat \<Rightarrow> string \<Rightarrow> string" where
  "directive index instruction =
     ''alias __svm.'' @ str_nat index @ '' \"'' @ instruction @ ''\"'' @ [CHR 0x0A]"

text \<open>The loop over \<^verbatim>\<open>enumerate(instructions)\<close>, on the state
  \<^verbatim>\<open>(vm_program, index)\<close>.\<close>

fun link :: "string \<Rightarrow> nat \<Rightarrow> string list \<Rightarrow> string" where
  "link vm_program index [] = vm_program"
| "link vm_program index (instruction # instructions) =
     link (vm_program @ directive index instruction) (index + 1) instructions"

text \<open>From the source text to the text written to the output file.\<close>

definition assemble :: "(string \<Rightarrow> 'f) \<Rightarrow> ('f \<Rightarrow> string) \<Rightarrow> string \<Rightarrow> error + string" where
  "assemble to_float float_str source_code =
     (case parse (program to_float) source_code of
        Inl e \<Rightarrow> Inl e
      | Inr ast \<Rightarrow>
          (case generate float_str (label_table ast) ast (0, []) of
             Inl e \<Rightarrow> Inl e
           | Inr (address_counter, instructions) \<Rightarrow> Inr (link [] 0 instructions)))"

text \<open>The run on a file system, a map from paths to contents: the exception of the
  run, if any, and the file system it leaves. The output file is opened for writing
  after code generation has finished.\<close>

definition fasm ::
  "(string \<Rightarrow> 'f) \<Rightarrow> ('f \<Rightarrow> string) \<Rightarrow> string \<Rightarrow> string \<Rightarrow> (string \<rightharpoonup> string)
    \<Rightarrow> error option \<times> (string \<rightharpoonup> string)" where
  "fasm to_float float_str file output files =
     (case files file of
        None \<Rightarrow> (Some InputNotFound, files)
      | Some source_code \<Rightarrow>
          (case assemble to_float float_str source_code of
             Inl e \<Rightarrow> (Some e, files)
           | Inr vm_program \<Rightarrow> (None, files(output \<mapsto> vm_program))))"

subsection \<open>Notions the properties are stated with\<close>

text \<open>An opcode node is an instruction: it takes one slot of program memory.\<close>

fun is_instruction :: "'f node \<Rightarrow> bool" where
  "is_instruction (OpcodeNode op a) = True"
| "is_instruction (LabelNode l) = False"

definition instruction_count :: "'f node list \<Rightarrow> nat" where
  "instruction_count ast = length (filter is_instruction ast)"

text \<open>\<open>statements to_float chunks ast r\<close>: before the text \<open>r\<close>, the texts
  \<open>chunks\<close>, none of them empty, are read one after the other by the statement parser,
  which returns the nodes \<open>ast\<close>.\<close>

fun statements :: "(string \<Rightarrow> 'f) \<Rightarrow> string list \<Rightarrow> 'f node list \<Rightarrow> string \<Rightarrow> bool" where
  "statements to_float [] [] r = True"
| "statements to_float (c # cs) (n # ns) r =
     (c \<noteq> [] \<and> statement to_float (c @ concat cs @ r) = Some (n, concat cs @ r)
      \<and> statements to_float cs ns r)"
| "statements to_float [] (n # ns) r = False"
| "statements to_float (c # cs) [] r = False"

text \<open>The words the grammar passes to \<^verbatim>\<open>literal\<close>.\<close>

definition keyword_list :: "string list" where
  "keyword_list = [''true'', ''false'', ''push'', ''pop'', ''dup'', ''dot'', ''add'', ''sub'', ''mul'',
     ''div'', ''pow'', ''min'', ''max'', ''jmp'', ''jif'', ''call'', ''ret'', ''eq'', ''ne'', ''lt'',
     ''le'', ''gt'', ''ge'', ''store'', ''load'', ''gstore'', ''gload'', ''hlt'']"


section \<open>The label table\<close>

lemma instruction_count_simps [simp]:
  "instruction_count [] = 0"
  "instruction_count (LabelNode l # ast) = instruction_count ast"
  "instruction_count (OpcodeNode op a # ast) = Suc (instruction_count ast)"
  "instruction_count (xs @ ys) = instruction_count xs + instruction_count ys"
  by (simp_all add: instruction_count_def)

lemma populate_append: "populate (xs @ ys) st = populate ys (populate xs st)"
  by (induction xs st rule: populate.induct) simp_all

lemma populate_counter: "fst (populate ast (c, m)) = c + instruction_count ast"
  by (induction ast "(c, m)" arbitrary: c m rule: populate.induct) simp_all

lemma populate_keeps:
  "LabelNode l \<notin> set ast \<Longrightarrow> snd (populate ast (c, m)) l = m l"
  by (induction ast "(c, m)" arbitrary: c m rule: populate.induct) auto

lemma populate_pair: "populate ast (c, m) = (c + instruction_count ast, snd (populate ast (c, m)))"
  by (metis populate_counter prod.collapse)

lemma label_table_last:
  assumes "LabelNode l \<notin> set post"
  shows "label_table (pre @ LabelNode l # post) l = Some (instruction_count pre)"
proof -
  obtain m where m: "populate pre (0, Map.empty) = (instruction_count pre, m)"
    using populate_pair [of pre 0 Map.empty] by simp
  have "label_table (pre @ LabelNode l # post) l
      = snd (populate post (instruction_count pre, m(l \<mapsto> instruction_count pre))) l"
    by (simp add: label_table_def populate_append m)
  also have "\<dots> = (m(l \<mapsto> instruction_count pre)) l"
    using assms by (rule populate_keeps)
  finally show ?thesis by simp
qed

lemma label_table_undeclared:
  "LabelNode l \<notin> set ast \<Longrightarrow> label_table ast l = None"
  by (simp add: label_table_def populate_keeps)

lemma label_table_declared:
  assumes "LabelNode l \<in> set ast"
  shows "\<exists>pre post. ast = pre @ LabelNode l # post \<and> LabelNode l \<notin> set post"
  using assms by (rule split_list_last)

text \<open>
  C1. The counter of the first loop starts at 0 and, after any list of nodes, is the
  number of instruction nodes of the list: a label node leaves it as it is, an
  instruction node adds one. At a label node the loop binds the name to the number of
  instruction nodes before that node; and the finished table gives a name the number of
  instruction nodes before the node that declares it (the last one, when a name is
  declared again).
\<close>

theorem label_address_is_instruction_count:
  "fst (populate ast (0, Map.empty)) = instruction_count ast
   \<and> fst (populate (ast @ [LabelNode l]) (0, Map.empty)) = fst (populate ast (0, Map.empty))
   \<and> fst (populate (ast @ [OpcodeNode op a]) (0, Map.empty))
       = fst (populate ast (0, Map.empty)) + 1
   \<and> populate (pre @ LabelNode l # post) (0, Map.empty)
       = populate post (instruction_count pre, (label_table pre)(l \<mapsto> instruction_count pre))
   \<and> (LabelNode l \<notin> set post \<longrightarrow>
        label_table (pre @ LabelNode l # post) l = Some (instruction_count pre))"
proof (intro conjI impI)
  show "fst (populate ast (0, Map.empty)) = instruction_count ast"
    by (simp add: populate_counter)
  show "fst (populate (ast @ [LabelNode l]) (0, Map.empty)) = fst (populate ast (0, Map.empty))"
    by (simp add: populate_counter)
  show "fst (populate (ast @ [OpcodeNode op a]) (0, Map.empty))
      = fst (populate ast (0, Map.empty)) + 1"
    by (simp add: populate_counter)
  have "populate pre (0, Map.empty) = (instruction_count pre, label_table pre)"
    using populate_pair [of pre 0 Map.empty] by (simp add: label_table_def)
  then show "populate (pre @ LabelNode l # post) (0, Map.empty)
      = populate post (instruction_count pre, (label_table pre)(l \<mapsto> instruction_count pre))"
    by (simp add: populate_append)
  show "label_table (pre @ LabelNode l # post) l = Some (instruction_count pre)"
    if "LabelNode l \<notin> set post"
    using that by (rule label_table_last)
qed

theorem label_address_is_instruction_count_witness:
  "LabelNode ''start'' \<notin> set [OpcodeNode ''jmp'' (Some (AStr ''start'')) :: string node]
   \<and> label_table ([OpcodeNode ''push'' (Some (AInt 1)), LabelNode ''start'',
                    OpcodeNode ''add'' None]
                   @ LabelNode ''start'' # [OpcodeNode ''jmp'' (Some (AStr ''start'')) :: string node])
        ''start'' = Some 2"
  using label_address_is_instruction_count
    [where pre = "[OpcodeNode ''push'' (Some (AInt 1)), LabelNode ''start'', OpcodeNode ''add'' None]"
       and l = "''start''" and post = "[OpcodeNode ''jmp'' (Some (AStr ''start'')) :: string node]"
       and ast = "[]" and op = "''hlt''" and a = None]
  by simp

section \<open>Code generation\<close>

lemma generate_state:
  "generate fs L ast (c, ins) = Inr (c', ins') \<Longrightarrow>
     c' = c + instruction_count ast \<and> length ins' = length ins + instruction_count ast
     \<and> take (length ins) ins' = ins"
proof (induction ast arbitrary: c ins)
  case Nil
  then show ?case by simp
next
  case (Cons n ast)
  show ?case
  proof (cases n)
    case (LabelNode l)
    with Cons show ?thesis by simp
  next
    case (OpcodeNode op a)
    with Cons.prems obtain t where t: "render fs L op a = Inr t"
      and g: "generate fs L ast (c + 1, ins @ [t]) = Inr (c', ins')"
      by (auto split: sum.splits)
    from Cons.IH [OF g] have "c' = c + 1 + instruction_count ast"
      and "length ins' = length ins + 1 + instruction_count ast"
      and tk: "take (length ins + 1) ins' = ins @ [t]" by simp_all
    moreover have "take (length ins) ins' = take (length ins) (take (length ins + 1) ins')"
      by (simp add: min_def)
    ultimately show ?thesis using OpcodeNode by simp
  qed
qed

lemma generate_nth:
  "generate fs L ast (c, ins) = Inr (c', ins') \<Longrightarrow> i < length ast \<Longrightarrow>
   ast ! i = OpcodeNode op a \<Longrightarrow>
     render fs L op a = Inr (ins' ! (length ins + instruction_count (take i ast)))"
proof (induction ast arbitrary: c ins i)
  case Nil
  then show ?case by simp
next
  case (Cons n ast)
  show ?case
  proof (cases n)
    case (LabelNode l)
    with Cons.prems obtain j where j: "i = Suc j" by (cases i) auto
    with Cons.prems LabelNode have "generate fs L ast (c, ins) = Inr (c', ins')"
      "j < length ast" "ast ! j = OpcodeNode op a" by simp_all
    from Cons.IH [OF this] show ?thesis using j LabelNode by simp
  next
    case (OpcodeNode op' a')
    with Cons.prems obtain t where t: "render fs L op' a' = Inr t"
      and g: "generate fs L ast (c + 1, ins @ [t]) = Inr (c', ins')"
      by (auto split: sum.splits)
    show ?thesis
    proof (cases i)
      case 0
      from generate_state [OF g] have "take (length ins + 1) ins' = ins @ [t]" by simp
      then have "ins' ! length ins = (ins @ [t]) ! length ins"
        by (metis less_add_one nth_take)
      then have "ins' ! length ins = t" by simp
      with 0 Cons.prems OpcodeNode t show ?thesis by simp
    next
      case (Suc j)
      with Cons.prems have "j < length ast" "ast ! j = OpcodeNode op a" by simp_all
      from Cons.IH [OF g this] show ?thesis using Suc OpcodeNode by simp
    qed
  qed
qed

lemma generate_Inl_render:
  "generate fs L ast st = Inl e \<Longrightarrow> \<exists>op a. OpcodeNode op a \<in> set ast \<and> render fs L op a = Inl e"
  by (induction fs L ast st rule: generate.induct) (auto split: sum.splits)

lemma render_Inl_generate:
  "OpcodeNode op a \<in> set ast \<Longrightarrow> render fs L op a = Inl e \<Longrightarrow> \<exists>e'. generate fs L ast st = Inl e'"
  by (induction fs L ast st rule: generate.induct) (auto split: sum.splits)

lemma generate_first_error:
  "\<forall>op' a'. OpcodeNode op' a' \<in> set pre \<longrightarrow> (\<exists>t. render fs L op' a' = Inr t) \<Longrightarrow>
   render fs L op a = Inl e \<Longrightarrow>
     generate fs L (pre @ OpcodeNode op a # post) st = Inl e"
proof (induction pre arbitrary: st)
  case Nil
  then show ?case by (cases st) simp
next
  case (Cons n pre)
  then have IH: "generate fs L (pre @ OpcodeNode op a # post) st' = Inl e" for st'
    by simp
  show ?case
  proof (cases n)
    case (LabelNode l)
    then show ?thesis using IH by simp
  next
    case (OpcodeNode op' a')
    with Cons.prems obtain t where "render fs L op' a' = Inr t" by auto
    with OpcodeNode IH show ?thesis by (cases st) simp
  qed
qed

lemma render_Inl_iff:
  "render fs L op a = Inl e \<longleftrightarrow>
     (\<exists>x. a = Some x \<and> is_branch op \<and> lookup L x = None \<and> e = UndefinedLabel (arg_str fs x))"
  by (auto simp: render_def split: option.splits)

lemma render_branch:
  "is_branch op \<Longrightarrow> L l = Some n \<Longrightarrow> render fs L op (Some (AStr l)) = Inr (op @ '' '' @ str_nat n)"
  by (simp add: render_def)

lemma branch_text:
  assumes ast: "ast = pre @ LabelNode l # post" and last: "LabelNode l \<notin> set post"
    and i: "i < length ast" "ast ! i = OpcodeNode op (Some (AStr l))" and op: "is_branch op"
    and g: "generate fs (label_table ast) ast (0, []) = Inr (c, instructions)"
  shows "instructions ! instruction_count (take i ast) = op @ '' '' @ str_nat (instruction_count pre)"
proof -
  have "label_table ast l = Some (instruction_count pre)"
    unfolding ast using last by (rule label_table_last)
  with op have "render fs (label_table ast) op (Some (AStr l))
      = Inr (op @ '' '' @ str_nat (instruction_count pre))"
    by (rule render_branch)
  moreover from generate_nth [OF g i]
  have "render fs (label_table ast) op (Some (AStr l))
      = Inr (instructions ! instruction_count (take i ast))" by simp
  ultimately show ?thesis by simp
qed


text \<open>
  C4. A label declared exactly once: every branch instruction (\<^verbatim>\<open>jmp\<close>, \<^verbatim>\<open>jif\<close>,
  \<^verbatim>\<open>call\<close>) that names it, at any position \<open>i\<close> of the node list, before or after
  the declaration, is rendered as the opcode followed by the number of instruction
  nodes before the declaration.
\<close>

theorem branch_address_any_order:
  assumes "ast = pre @ LabelNode l # post"
    and "LabelNode l \<notin> set pre" and "LabelNode l \<notin> set post"
    and "i < length ast" and "ast ! i = OpcodeNode op (Some (AStr l))" and "is_branch op"
    and "generate float_str (label_table ast) ast (0, []) = Inr (c, instructions)"
  shows "instructions ! instruction_count (take i ast)
    = op @ '' '' @ str_nat (instruction_count pre)"
  using assms(1,3-) by (rule branch_text)

text \<open>The source \<^verbatim>\<open>jmp end end: hlt jif end\<close>: the reference before the declaration
  and the one after it both get the address 1 of \<^verbatim>\<open>hlt\<close>.\<close>

theorem branch_address_any_order_witness:
  "parse (program (\<lambda>s. s)) ''jmp end end: hlt jif end''
     = Inr ([OpcodeNode ''jmp'' (Some (AStr ''end''))] @ LabelNode ''end''
            # [OpcodeNode ''hlt'' None, OpcodeNode ''jif'' (Some (AStr ''end''))])
   \<and> generate (\<lambda>s. s)
        (label_table ([OpcodeNode ''jmp'' (Some (AStr ''end''))] @ LabelNode ''end''
            # [OpcodeNode ''hlt'' None, OpcodeNode ''jif'' (Some (AStr ''end'')) :: string node]))
        ([OpcodeNode ''jmp'' (Some (AStr ''end''))] @ LabelNode ''end''
            # [OpcodeNode ''hlt'' None, OpcodeNode ''jif'' (Some (AStr ''end''))]) (0, [])
       = Inr (3, [''jmp 1'', ''hlt'', ''jif 1''])
   \<and> [''jmp 1'', ''hlt'', ''jif 1'']
        ! instruction_count (take 0 ([OpcodeNode ''jmp'' (Some (AStr ''end''))] @ LabelNode ''end''
            # [OpcodeNode ''hlt'' None, OpcodeNode ''jif'' (Some (AStr ''end'')) :: string node]))
       = ''jmp'' @ '' '' @ str_nat (instruction_count [OpcodeNode ''jmp'' (Some (AStr ''end'')) :: string node])
   \<and> [''jmp 1'', ''hlt'', ''jif 1'']
        ! instruction_count (take 3 ([OpcodeNode ''jmp'' (Some (AStr ''end''))] @ LabelNode ''end''
            # [OpcodeNode ''hlt'' None, OpcodeNode ''jif'' (Some (AStr ''end'')) :: string node]))
       = ''jif'' @ '' '' @ str_nat (instruction_count [OpcodeNode ''jmp'' (Some (AStr ''end'')) :: string node])"
  (is "?P \<and> ?G \<and> ?F \<and> ?B")
proof -
  have p: ?P by code_simp
  have g: ?G by code_simp
  have f: ?F
    by (rule branch_address_any_order
        [where l = "''end''" and pre = "[OpcodeNode ''jmp'' (Some (AStr ''end''))]"
           and post = "[OpcodeNode ''hlt'' None, OpcodeNode ''jif'' (Some (AStr ''end''))]",
         OF _ _ _ _ _ _ g])
      (simp_all add: is_branch_def)
  have b: ?B
    by (rule branch_address_any_order
        [where l = "''end''" and pre = "[OpcodeNode ''jmp'' (Some (AStr ''end''))]"
           and post = "[OpcodeNode ''hlt'' None, OpcodeNode ''jif'' (Some (AStr ''end''))]",
         OF _ _ _ _ _ _ g])
      (simp_all add: is_branch_def)
  from p g f b show ?thesis by (intro conjI)
qed

text \<open>
  C3, as amended. A name declared several times: a branch instruction that names it is
  rendered with the address of the last declaration of the name in the source, wherever
  the instruction stands, since the table is complete before the first instruction is
  rendered.
\<close>

theorem branch_sees_last_declaration:
  assumes "ast = pre @ LabelNode l # post" and "LabelNode l \<notin> set post"
    and "i < length ast" and "ast ! i = OpcodeNode op (Some (AStr l))" and "is_branch op"
    and "generate float_str (label_table ast) ast (0, []) = Inr (c, instructions)"
  shows "instructions ! instruction_count (take i ast)
    = op @ '' '' @ str_nat (instruction_count pre)"
  using assms by (rule branch_text)

text \<open>The source \<^verbatim>\<open>x: hlt x: jmp x hlt x: hlt\<close> declares \<^verbatim>\<open>x\<close> at the addresses 0, 1
  and 3. The \<^verbatim>\<open>jmp x\<close> between the second and the third declaration is rendered
  \<^verbatim>\<open>jmp 3\<close>, not \<^verbatim>\<open>jmp 1\<close>.\<close>

theorem branch_sees_second_declaration_counterexample:
  "parse (program (\<lambda>s. s)) ''x: hlt x: jmp x hlt x: hlt''
     = Inr [LabelNode ''x'', OpcodeNode ''hlt'' None, LabelNode ''x'',
            OpcodeNode ''jmp'' (Some (AStr ''x'')), OpcodeNode ''hlt'' None, LabelNode ''x'',
            OpcodeNode ''hlt'' None]
   \<and> label_table [LabelNode ''x'', OpcodeNode ''hlt'' None, LabelNode ''x'' :: string node] ''x''
       = Some 1
   \<and> assemble (\<lambda>s. s) (\<lambda>s. s) ''x: hlt x: jmp x hlt x: hlt''
       = Inr (directive 0 ''hlt'' @ directive 1 ''jmp 3'' @ directive 2 ''hlt'' @ directive 3 ''hlt'')
   \<and> assemble (\<lambda>s. s) (\<lambda>s. s) ''x: hlt x: jmp x hlt x: hlt''
       \<noteq> Inr (directive 0 ''hlt'' @ directive 1 ''jmp 1'' @ directive 2 ''hlt'' @ directive 3 ''hlt'')"
  by code_simp

theorem branch_sees_last_declaration_witness:
  "generate (\<lambda>s. s)
     (label_table ([LabelNode ''x'', OpcodeNode ''hlt'' None, LabelNode ''x'',
                    OpcodeNode ''jmp'' (Some (AStr ''x'')), OpcodeNode ''hlt'' None]
                   @ LabelNode ''x'' # [OpcodeNode ''hlt'' None :: string node]))
     ([LabelNode ''x'', OpcodeNode ''hlt'' None, LabelNode ''x'',
       OpcodeNode ''jmp'' (Some (AStr ''x'')), OpcodeNode ''hlt'' None]
      @ LabelNode ''x'' # [OpcodeNode ''hlt'' None]) (0, [])
     = Inr (4, [''hlt'', ''jmp 3'', ''hlt'', ''hlt''])
   \<and> [''hlt'', ''jmp 3'', ''hlt'', ''hlt'']
        ! instruction_count (take 3 ([LabelNode ''x'', OpcodeNode ''hlt'' None, LabelNode ''x'',
              OpcodeNode ''jmp'' (Some (AStr ''x'')), OpcodeNode ''hlt'' None]
              @ LabelNode ''x'' # [OpcodeNode ''hlt'' None :: string node]))
       = ''jmp'' @ '' '' @ str_nat (instruction_count [LabelNode ''x'', OpcodeNode ''hlt'' None,
              LabelNode ''x'', OpcodeNode ''jmp'' (Some (AStr ''x'')),
              OpcodeNode ''hlt'' None :: string node])"
  (is "?G \<and> ?C")
proof -
  have g: ?G by code_simp
  have c: ?C
    by (rule branch_sees_last_declaration
        [where l = "''x''" and post = "[OpcodeNode ''hlt'' None]"
           and pre = "[LabelNode ''x'', OpcodeNode ''hlt'' None, LabelNode ''x'',
              OpcodeNode ''jmp'' (Some (AStr ''x'')), OpcodeNode ''hlt'' None]",
         OF _ _ _ _ _ g])
      (simp_all add: is_branch_def)
  from g c show ?thesis by (intro conjI)
qed

section \<open>What the parser returns\<close>

lemmas char_class_defs = is_space_def is_digit_def is_ident_start_def is_ident_char_def is_word_def word_boundary_def

lemmas comb_defs = skip_def then_p_def alt_def map_p_def result_def seq_def plus_p_def string_p_def word_def
  token_def literal_def regex_word_def WHITESPACE_def

lemmas keyword_defs = TRUE_def FALSE_def POP_def DUP_def DOT_def ADD_def SUB_def MUL_def DIV_def POW_def MIN_op_def MAX_op_def
  JMP_def JIF_def CALL_def RET_def EQ_def NE_def LT_def LE_def GT_def GE_def
   STORE_def LOAD_def GSTORE_def GLOAD_def HLT_def

lemmas grammar_defs = COLON_def FORWARD_SLASH_def NUMBER_def BOOLEAN_def label_def LABEL_def
  PUSH_def  STACK_OP_def ARITHMETIC_OP_def BRANCH_OP_def 
  LOGICAL_OP_def IO_OP_def  OPCODE_alt_def OPCODE_def statement_def keyword_defs

lemma alt_cases: "alt p q s = Some x \<Longrightarrow> (p s = Some x \<Longrightarrow> P) \<Longrightarrow> (q s = Some x \<Longrightarrow> P) \<Longrightarrow> P"
  by (auto simp: alt_def split: option.splits)

lemma seq_cases:
  "seq p q s = Some (x, r) \<Longrightarrow> (\<And>a b r1. x = Two a b \<Longrightarrow> p s = Some (a, r1) \<Longrightarrow> q r1 = Some (b, r) \<Longrightarrow> P) \<Longrightarrow> P"
  by (auto simp: seq_def split: option.splits)

lemma word_cases: "word p s = Some (x, r) \<Longrightarrow> (\<And>w. x = Word w \<Longrightarrow> p s = Some (w, r) \<Longrightarrow> P) \<Longrightarrow> P"
  by (auto simp: word_def map_p_def split: option.splits)

lemma map_p_cases: "map_p f p s = Some (x, r) \<Longrightarrow> (\<And>a. x = f a \<Longrightarrow> p s = Some (a, r) \<Longrightarrow> P) \<Longrightarrow> P"
  by (auto simp: map_p_def split: option.splits)

lemma skip_cases:
  "skip p q s = Some (x, r) \<Longrightarrow> (\<And>b r1. p s = Some (x, r1) \<Longrightarrow> q r1 = Some (b, r) \<Longrightarrow> P) \<Longrightarrow> P"
  by (auto simp: skip_def split: option.splits)

lemma literal_value: "literal w s = Some (a, r) \<Longrightarrow> a = w"
  by (auto simp: literal_def token_def skip_def regex_word_def split: option.splits if_splits)

lemma PUSH_shape: "PUSH tf s = Some (Two op a, r) \<Longrightarrow> op = ''push''"
  unfolding PUSH_def by (erule seq_cases) (auto dest: literal_value)

lemma OPCODE_alt_branch:
  assumes "OPCODE_alt tf s = Some (Two op a, r)" and "is_branch op"
  shows "\<exists>name. a = AStr name"
proof -
  have push: "\<not> is_branch ''push''" by (simp add: is_branch_def)
  have io: "\<not> is_branch ''store_l''" "\<not> is_branch ''load_l''" "\<not> is_branch ''store_g''" "\<not> is_branch ''load_g''"
    by (simp_all add: is_branch_def)
  from assms(1) show ?thesis
    unfolding OPCODE_alt_def STACK_OP_def BRANCH_OP_def IO_OP_def
    using assms(2) push
    by (auto elim!: alt_cases word_cases seq_cases map_p_cases dest!: PUSH_shape)
qed

lemma statement_branch:
  assumes "statement tf s = Some (OpcodeNode op (Some a), r)" and "is_branch op"
  shows "\<exists>name. a = AStr name"
proof -
  from assms(1) have "OPCODE tf s = Some (OpcodeNode op (Some a), r)"
    unfolding statement_def LABEL_def label_def by (auto elim!: alt_cases map_p_cases)
  then obtain x r1 where "OPCODE_alt tf s = Some (x, r1)" "opcode x = OpcodeNode op (Some a)"
    unfolding OPCODE_def token_def by (auto elim!: map_p_cases skip_cases)
  then have "OPCODE_alt tf s = Some (Two op a, r1)"
    by (cases x) auto
  then show ?thesis using assms(2) by (rule OPCODE_alt_branch)
qed

lemma statement_many_branch:
  "statement_many tf s = (ast, r) \<Longrightarrow> OpcodeNode op (Some a) \<in> set ast \<Longrightarrow> is_branch op \<Longrightarrow> \<exists>name. a = AStr name"
proof (induction tf s arbitrary: ast r rule: statement_many.induct)
  case (1 tf s)
  show ?case
  proof (cases "statement tf s")
    case None
    with "1.prems" show ?thesis by (simp add: statement_many.simps [of tf s])
  next
    case (Some x)
    obtain n r1 where x: "x = (n, r1)" by (cases x)
    obtain ns r2 where m: "statement_many tf r1 = (ns, r2)" by (cases "statement_many tf r1")
    from "1.prems"(1) Some x m have ast: "ast = n # ns"
      by (simp add: statement_many.simps [of tf s])
    show ?thesis
    proof (cases "OpcodeNode op (Some a) = n")
      case True
      with Some x "1.prems"(3) show ?thesis by (auto dest: statement_branch)
    next
      case False
      with ast "1.prems"(2) have "OpcodeNode op (Some a) \<in> set ns" by simp
      from "1.IH" [OF Some x [symmetric] m this "1.prems"(3)] show ?thesis .
    qed
  qed
qed

lemma parse_program:
  "parse (program tf) s =
     (case statement_many tf (dropWhile is_space s) of (ast, r) \<Rightarrow> if r = [] then Inr ast else Inl ParseError)"
  by (simp add: parse_def program_def skip_def then_p_def many_def WHITESPACE_def eof_def split: prod.splits)

section \<open>Undefined labels\<close>

lemma parse_branch_args:
  assumes "parse (program tf) src = Inr ast" "OpcodeNode op (Some a) \<in> set ast" "is_branch op"
  shows "\<exists>name. a = AStr name"
proof -
  from assms(1) have "statement_many tf (dropWhile is_space src) = (ast, [])"
    by (auto simp: parse_program split: prod.splits if_splits)
  then show ?thesis using assms(2,3) by (rule statement_many_branch)
qed

lemma label_table_None_iff: "label_table ast l = None \<longleftrightarrow> LabelNode l \<notin> set ast"
proof
  show "LabelNode l \<notin> set ast" if "label_table ast l = None"
  proof
    assume "LabelNode l \<in> set ast"
    then obtain pre post where "ast = pre @ LabelNode l # post" "LabelNode l \<notin> set post"
      using label_table_declared by blast
    then have "label_table ast l = Some (instruction_count pre)"
      by (simp add: label_table_last)
    with that show False by simp
  qed
qed (rule label_table_undeclared)

lemma generate_error_name:
  assumes p: "parse (program tf) src = Inr ast"
    and g: "generate fs (label_table ast) ast st = Inl e"
  shows "\<exists>op name. e = UndefinedLabel name \<and> is_branch op
    \<and> OpcodeNode op (Some (AStr name)) \<in> set ast \<and> LabelNode name \<notin> set ast"
proof -
  from generate_Inl_render [OF g] obtain op a where
    n: "OpcodeNode op a \<in> set ast" and r: "render fs (label_table ast) op a = Inl e" by blast
  from r obtain x where x: "a = Some x" "is_branch op" "lookup (label_table ast) x = None"
    "e = UndefinedLabel (arg_str fs x)"
    unfolding render_Inl_iff by blast
  from parse_branch_args [OF p] n x(1,2) obtain name where "x = AStr name" by blast
  with x n show ?thesis by (auto simp: label_table_None_iff)
qed

lemma undeclared_generate_error:
  assumes "is_branch op" "OpcodeNode op (Some (AStr name)) \<in> set ast" "LabelNode name \<notin> set ast"
  shows "\<exists>e. generate fs (label_table ast) ast st = Inl e"
proof -
  have "render fs (label_table ast) op (Some (AStr name)) = Inl (UndefinedLabel name)"
    using assms(1,3) by (simp add: render_def label_table_undeclared)
  with assms(2) show ?thesis by (rule render_Inl_generate)
qed

lemma assemble_parsed:
  "parse (program tf) src = Inr ast \<Longrightarrow>
     assemble tf fs src = (case generate fs (label_table ast) ast (0, []) of
        Inl e \<Rightarrow> Inl e | Inr (c, instructions) \<Rightarrow> Inr (link [] 0 instructions))"
  by (simp add: assemble_def)

lemma assemble_Inl_cases:
  assumes "assemble tf fs src = Inl e"
  shows "parse (program tf) src = Inl e
     \<or> (\<exists>ast. parse (program tf) src = Inr ast \<and> generate fs (label_table ast) ast (0, []) = Inl e)"
  using assms by (auto simp: assemble_def split: sum.splits prod.splits)

lemma parse_error: "parse p s = Inl e \<Longrightarrow> e = ParseError"
  by (auto simp: parse_def split: option.splits)

text \<open>
  C5. A run ends with the undefined-label error for \<open>name\<close> only when parsing has
  succeeded and code generation has raised it, for a branch instruction whose operand
  \<open>name\<close> no label node declares. For a parsed source, the run ends with an
  undefined-label error if and only if some branch instruction names a label that is
  declared nowhere. A run that ends with an error leaves the file system as it was: no
  output file is written.
\<close>

theorem undefined_label_error:
  "(assemble to_float float_str source_code = Inl (UndefinedLabel name) \<longrightarrow>
      (\<exists>ast op. parse (program to_float) source_code = Inr ast
         \<and> generate float_str (label_table ast) ast (0, []) = Inl (UndefinedLabel name)
         \<and> is_branch op \<and> OpcodeNode op (Some (AStr name)) \<in> set ast
         \<and> LabelNode name \<notin> set ast))
   \<and> (parse (program to_float) source_code = Inr ast \<longrightarrow>
        ((\<exists>name. assemble to_float float_str source_code = Inl (UndefinedLabel name))
         \<longleftrightarrow> (\<exists>op name. is_branch op \<and> OpcodeNode op (Some (AStr name)) \<in> set ast
               \<and> LabelNode name \<notin> set ast)))
   \<and> (files input_file = Some source_code \<longrightarrow> assemble to_float float_str source_code = Inl e \<longrightarrow>
        fasm to_float float_str input_file output_file files = (Some e, files))"
proof (intro conjI impI)
  assume a: "assemble to_float float_str source_code = Inl (UndefinedLabel name)"
  from assemble_Inl_cases [OF a] parse_error [of "program to_float" source_code "UndefinedLabel name"]
  obtain ast where p: "parse (program to_float) source_code = Inr ast"
    and g: "generate float_str (label_table ast) ast (0, []) = Inl (UndefinedLabel name)"
    by auto
  from generate_error_name [OF p g] p g
  show "\<exists>ast op. parse (program to_float) source_code = Inr ast
         \<and> generate float_str (label_table ast) ast (0, []) = Inl (UndefinedLabel name)
         \<and> is_branch op \<and> OpcodeNode op (Some (AStr name)) \<in> set ast
         \<and> LabelNode name \<notin> set ast"
    by auto
next
  assume p: "parse (program to_float) source_code = Inr ast"
  show "(\<exists>name. assemble to_float float_str source_code = Inl (UndefinedLabel name))
         \<longleftrightarrow> (\<exists>op name. is_branch op \<and> OpcodeNode op (Some (AStr name)) \<in> set ast
               \<and> LabelNode name \<notin> set ast)" (is "?L \<longleftrightarrow> ?R")
  proof
    assume ?L
    then obtain name where "assemble to_float float_str source_code = Inl (UndefinedLabel name)" ..
    with p have "generate float_str (label_table ast) ast (0, []) = Inl (UndefinedLabel name)"
      by (auto simp: assemble_def split: sum.splits)
    from generate_error_name [OF p this] show ?R by blast
  next
    assume ?R
    then obtain op name where "is_branch op" "OpcodeNode op (Some (AStr name)) \<in> set ast"
      "LabelNode name \<notin> set ast" by blast
    from undeclared_generate_error [OF this]
    obtain e where g: "generate float_str (label_table ast) ast (0, []) = Inl e" by blast
    from generate_error_name [OF p g] obtain name' where "e = UndefinedLabel name'" by blast
    with g p have "assemble to_float float_str source_code = Inl (UndefinedLabel name')"
      by (simp add: assemble_def)
    then show ?L ..
  qed
next
  assume "files input_file = Some source_code" "assemble to_float float_str source_code = Inl e"
  then show "fasm to_float float_str input_file output_file files = (Some e, files)"
    by (simp add: fasm_def)
qed

text \<open>The source \<^verbatim>\<open>call missing\<close>.\<close>

theorem undefined_label_error_witness:
  "assemble (\<lambda>s. s) (\<lambda>s. s) ''call missing'' = Inl (UndefinedLabel ''missing'')
   \<and> parse (program (\<lambda>s. s)) ''call missing'' = Inr [OpcodeNode ''call'' (Some (AStr ''missing''))]
   \<and> (\<exists>op name. is_branch op
        \<and> OpcodeNode op (Some (AStr name)) \<in> set [OpcodeNode ''call'' (Some (AStr ''missing'')) :: string node]
        \<and> LabelNode name \<notin> set [OpcodeNode ''call'' (Some (AStr ''missing'')) :: string node])
   \<and> [''prog.fasm'' \<mapsto> ''call missing''] ''prog.fasm'' = Some ''call missing''
   \<and> fasm (\<lambda>s. s) (\<lambda>s. s) ''prog.fasm'' ''a.cfg'' [''prog.fasm'' \<mapsto> ''call missing'']
       = (Some (UndefinedLabel ''missing''), [''prog.fasm'' \<mapsto> ''call missing''])"
  (is "?A \<and> ?P \<and> ?R \<and> ?F \<and> ?O")
proof -
  have a: ?A by code_simp
  have p: ?P by code_simp
  have f: ?F by simp
  note t = undefined_label_error [where to_float = "\<lambda>s. s" and float_str = "\<lambda>s. s"
      and source_code = "''call missing''" and name = "''missing''"
      and ast = "[OpcodeNode ''call'' (Some (AStr ''missing''))]"
      and files = "[''prog.fasm'' \<mapsto> ''call missing'']" and input_file = "''prog.fasm''"
      and output_file = "''a.cfg''" and e = "UndefinedLabel ''missing''"]
  from t p a have r: ?R by blast
  from t f a have o: ?O by blast
  from a p r f o show ?thesis by (intro conjI)
qed

section \<open>Emission\<close>

lemma link_concat:
  "link vm_program index instructions
     = vm_program @ concat (map (\<lambda>j. directive (index + j) (instructions ! j)) [0..<length instructions])"
proof (induction instructions arbitrary: vm_program index)
  case Nil
  then show ?case by simp
next
  case (Cons x xs)
  have "[0..<length (x # xs)] = 0 # map Suc [0..<length xs]"
    by (simp add: upt_conv_Cons map_Suc_upt del: upt_Suc)
  then have "concat (map (\<lambda>j. directive (index + j) ((x # xs) ! j)) [0..<length (x # xs)])
      = directive index x @ concat (map (\<lambda>j. directive (index + 1 + j) (xs ! j)) [0..<length xs])"
    by (simp add: comp_def)
  with Cons [of "vm_program @ directive index x" "index + 1"] show ?case by simp
qed

lemma generate_kth:
  "generate fs L ast (c, ins) = Inr (c', ins') \<Longrightarrow> k < instruction_count ast \<Longrightarrow>
   filter is_instruction ast ! k = OpcodeNode op a \<Longrightarrow>
     render fs L op a = Inr (ins' ! (length ins + k))"
proof (induction ast arbitrary: c ins k)
  case Nil
  then show ?case by simp
next
  case (Cons n ast)
  show ?case
  proof (cases n)
    case (LabelNode l)
    with Cons.prems have "generate fs L ast (c, ins) = Inr (c', ins')"
      "k < instruction_count ast" "filter is_instruction ast ! k = OpcodeNode op a" by simp_all
    then show ?thesis by (rule Cons.IH)
  next
    case (OpcodeNode op' a')
    with Cons.prems obtain t where t: "render fs L op' a' = Inr t"
      and g: "generate fs L ast (c + 1, ins @ [t]) = Inr (c', ins')"
      by (auto split: sum.splits)
    show ?thesis
    proof (cases k)
      case 0
      from generate_state [OF g] have "take (length ins + 1) ins' = ins @ [t]" by simp
      then have "ins' ! length ins = (ins @ [t]) ! length ins"
        by (metis less_add_one nth_take)
      then have "ins' ! length ins = t" by simp
      with 0 Cons.prems OpcodeNode t show ?thesis by simp
    next
      case (Suc j)
      with Cons.prems OpcodeNode have "j < instruction_count ast"
        "filter is_instruction ast ! j = OpcodeNode op a" by simp_all
      from Cons.IH [OF g this] show ?thesis using Suc by simp
    qed
  qed
qed

lemma filter_instruction_nth:
  "k < instruction_count ast \<Longrightarrow> \<exists>op a. filter is_instruction ast ! k = OpcodeNode op a"
proof -
  assume "k < instruction_count ast"
  then have "filter is_instruction ast ! k \<in> set (filter is_instruction ast)"
    unfolding instruction_count_def by (rule nth_mem)
  then have "is_instruction (filter is_instruction ast ! k)"
    unfolding set_filter by blast
  then show ?thesis by (cases "filter is_instruction ast ! k") auto
qed

text \<open>
  C6. For a source the parser accepts and whose code generation succeeds, there are as
  many instructions as opcode nodes, the \<open>k\<close>-th instruction is the text of the
  \<open>k\<close>-th opcode node in source order, and the output is the directives
  \<^verbatim>\<open>alias __svm.k "text"\<close> for \<open>k = 0, 1, \<dots>\<close>, one line each, in that order. Label
  nodes add nothing.
\<close>

theorem one_directive_per_instruction:
  assumes "parse (program to_float) source_code = Inr ast"
    and "generate float_str (label_table ast) ast (0, []) = Inr (c, instructions)"
  shows "length instructions = instruction_count ast
    \<and> (\<forall>k<length instructions. \<exists>op a. filter is_instruction ast ! k = OpcodeNode op a
          \<and> render float_str (label_table ast) op a = Inr (instructions ! k))
    \<and> assemble to_float float_str source_code
        = Inr (concat (map (\<lambda>index. ''alias __svm.'' @ str_nat index @ '' \"''
                                   @ instructions ! index @ ''\"'' @ [CHR 0x0A])
                           [0..<length instructions]))"
proof (intro conjI allI impI)
  from generate_state [OF assms(2)]
  show len: "length instructions = instruction_count ast" by simp
  show "\<exists>op a. filter is_instruction ast ! k = OpcodeNode op a
          \<and> render float_str (label_table ast) op a = Inr (instructions ! k)"
    if "k < length instructions" for k
  proof -
    from that len have k: "k < instruction_count ast" by simp
    then obtain op a where n: "filter is_instruction ast ! k = OpcodeNode op a"
      using filter_instruction_nth by blast
    from generate_kth [OF assms(2) k n] n show ?thesis by simp
  qed
  have "assemble to_float float_str source_code = Inr (link [] 0 instructions)"
    using assms by (simp add: assemble_def)
  then show "assemble to_float float_str source_code
        = Inr (concat (map (\<lambda>index. ''alias __svm.'' @ str_nat index @ '' \"''
                                   @ instructions ! index @ ''\"'' @ [CHR 0x0A])
                           [0..<length instructions]))"
    by (simp add: link_concat directive_def)
qed

text \<open>The source \<^verbatim>\<open>start: push 1 push 2 add jmp start\<close>.\<close>

theorem one_directive_per_instruction_witness:
  "parse (program (\<lambda>s. s)) ''start: push 1 push 2 add jmp start''
     = Inr [LabelNode ''start'', OpcodeNode ''push'' (Some (AInt 1)),
            OpcodeNode ''push'' (Some (AInt 2)), OpcodeNode ''add'' None,
            OpcodeNode ''jmp'' (Some (AStr ''start''))]
   \<and> generate (\<lambda>s. s)
        (label_table [LabelNode ''start'', OpcodeNode ''push'' (Some (AInt 1)),
            OpcodeNode ''push'' (Some (AInt 2)), OpcodeNode ''add'' None,
            OpcodeNode ''jmp'' (Some (AStr ''start'')) :: string node])
        [LabelNode ''start'', OpcodeNode ''push'' (Some (AInt 1)),
            OpcodeNode ''push'' (Some (AInt 2)), OpcodeNode ''add'' None,
            OpcodeNode ''jmp'' (Some (AStr ''start''))] (0, [])
       = Inr (4, [''push 1'', ''push 2'', ''add'', ''jmp 0''])
   \<and> length [''push 1'', ''push 2'', ''add'', ''jmp 0'']
       = instruction_count [LabelNode ''start'', OpcodeNode ''push'' (Some (AInt 1)),
            OpcodeNode ''push'' (Some (AInt 2)), OpcodeNode ''add'' None,
            OpcodeNode ''jmp'' (Some (AStr ''start'')) :: string node]
   \<and> assemble (\<lambda>s. s) (\<lambda>s. s) ''start: push 1 push 2 add jmp start''
       = Inr (concat (map (\<lambda>index. ''alias __svm.'' @ str_nat index @ '' \"''
                             @ [''push 1'', ''push 2'', ''add'', ''jmp 0''] ! index
                             @ ''\"'' @ [CHR 0x0A])
                      [0..<length [''push 1'', ''push 2'', ''add'', ''jmp 0'']]))"
  (is "?P \<and> ?G \<and> ?L \<and> ?A")
proof -
  have p: ?P by code_simp
  have g: ?G by code_simp
  note t = one_directive_per_instruction [OF p g]
  from t have l: ?L by blast
  from t have a: ?A by blast
  from p g l a show ?thesis by (intro conjI)
qed

section \<open>Parsing the whole source\<close>

lemma statement_Nil: "statement tf [] = None"
  using statement_shorter [of tf "[]"] by (cases "statement tf []") auto

lemma statement_chunk: "statement tf s = Some (n, r) \<Longrightarrow> \<exists>c. c \<noteq> [] \<and> s = c @ r"
  using reads1_statement [of tf] unfolding reads1_def by blast

lemma statement_many_statements:
  "statement_many tf s = (ast, r) \<Longrightarrow>
     \<exists>chunks. s = concat chunks @ r \<and> statements tf chunks ast r \<and> statement tf r = None"
proof (induction tf s arbitrary: ast r rule: statement_many.induct)
  case (1 tf s)
  show ?case
  proof (cases "statement tf s")
    case None
    with "1.prems" have "ast = []" "r = s" by (simp_all add: statement_many.simps [of tf s])
    with None have "s = concat [] @ r \<and> statements tf [] ast r \<and> statement tf r = None" by simp
    then show ?thesis by blast
  next
    case (Some x)
    obtain n r1 where x: "x = (n, r1)" by (cases x)
    obtain ns r2 where m: "statement_many tf r1 = (ns, r2)" by (cases "statement_many tf r1")
    from "1.prems" Some x m have ast: "ast = n # ns" "r = r2"
      by (simp_all add: statement_many.simps [of tf s])
    from "1.IH" [OF Some x [symmetric] m] obtain chunks where
      ch: "r1 = concat chunks @ r2" "statements tf chunks ns r2" "statement tf r2 = None" by blast
    from Some x obtain c where c: "c \<noteq> []" "s = c @ r1" using statement_chunk by blast
    have "s = concat (c # chunks) @ r" using c ch ast by simp
    moreover have "statements tf (c # chunks) ast r"
      using c ch ast Some x by simp
    ultimately show ?thesis using ch(3) ast(2) by blast
  qed
qed

lemma statements_statement_many:
  "statements tf chunks ast r \<Longrightarrow> statement tf r = None \<Longrightarrow>
     statement_many tf (concat chunks @ r) = (ast, r)"
proof (induction tf chunks ast r rule: statements.induct)
  case (1 tf r)
  then show ?case by (simp add: statement_many.simps [of tf r])
next
  case (2 tf c cs n ns r)
  then have "statement tf (c @ concat cs @ r) = Some (n, concat cs @ r)"
    and "statement_many tf (concat cs @ r) = (ns, r)" by simp_all
  then show ?case by (simp add: statement_many.simps [of tf "c @ concat cs @ r"])
qed simp_all

text \<open>
  C7. Parsing returns the nodes exactly when the whole source, after its leading white
  space, is a sequence of statement texts, each read by the statement parser. When the
  statement parser stops before the end of the text, parsing raises the parse error; and
  a parse error ends the run: nothing is generated and the file system is left as it
  was.
\<close>

theorem parse_all_or_nothing:
  "(parse (program to_float) source_code = Inr ast \<longleftrightarrow>
      (\<exists>chunks. source_code = takeWhile is_space source_code @ concat chunks
         \<and> statements to_float chunks ast []))
   \<and> (statement_many to_float (dropWhile is_space source_code) = (ast, r) \<longrightarrow> r \<noteq> [] \<longrightarrow>
        parse (program to_float) source_code = Inl ParseError)
   \<and> (parse (program to_float) source_code = Inl e \<longrightarrow>
        e = ParseError \<and> assemble to_float float_str source_code = Inl ParseError
        \<and> (files input_file = Some source_code \<longrightarrow>
             fasm to_float float_str input_file output_file files = (Some ParseError, files)))"
proof (intro conjI impI)
  show "parse (program to_float) source_code = Inr ast \<longleftrightarrow>
      (\<exists>chunks. source_code = takeWhile is_space source_code @ concat chunks
         \<and> statements to_float chunks ast [])" (is "?L \<longleftrightarrow> ?R")
  proof
    assume ?L
    then have "statement_many to_float (dropWhile is_space source_code) = (ast, [])"
      by (auto simp: parse_program split: prod.splits if_splits)
    from statement_many_statements [OF this] obtain chunks where
      "dropWhile is_space source_code = concat chunks" "statements to_float chunks ast []"
      by auto
    moreover have "source_code = takeWhile is_space source_code @ dropWhile is_space source_code"
      by simp
    ultimately have "source_code = takeWhile is_space source_code @ concat chunks
      \<and> statements to_float chunks ast []" by simp
    then show ?R ..
  next
    assume ?R
    then obtain chunks where s: "source_code = takeWhile is_space source_code @ concat chunks"
      and st: "statements to_float chunks ast []" by blast
    have "takeWhile is_space source_code @ dropWhile is_space source_code
        = takeWhile is_space source_code @ concat chunks"
      using s by simp
    then have "dropWhile is_space source_code = concat chunks @ []"
      by (simp only: same_append_eq append_Nil2)
    with statements_statement_many [OF st statement_Nil]
    have "statement_many to_float (dropWhile is_space source_code) = (ast, [])" by simp
    then show ?L by (simp add: parse_program)
  qed
next
  assume "statement_many to_float (dropWhile is_space source_code) = (ast, r)" "r \<noteq> []"
  then show "parse (program to_float) source_code = Inl ParseError"
    by (simp add: parse_program)
next
  assume p: "parse (program to_float) source_code = Inl e"
  then show e: "e = ParseError" by (rule parse_error)
  from p e show a: "assemble to_float float_str source_code = Inl ParseError"
    by (simp add: assemble_def)
  show "fasm to_float float_str input_file output_file files = (Some ParseError, files)"
    if "files input_file = Some source_code"
    using that a by (simp add: fasm_def)
qed

text \<open>The source \<^verbatim>\<open>push 1 @\<close> is rejected although \<^verbatim>\<open>push 1\<close> is a statement; the
  source \<^verbatim>\<open> push 1 add\<close> is the white space and the two statement texts \<^verbatim>\<open>push 1 \<close> and
  \<^verbatim>\<open>add\<close>.\<close>

theorem parse_all_or_nothing_witness:
  "statement_many (\<lambda>s. s) (dropWhile is_space ''push 1 @'') = ([OpcodeNode ''push'' (Some (AInt 1))], ''@'')
   \<and> ''@'' \<noteq> []
   \<and> parse (program (\<lambda>s. s)) ''push 1 @'' = Inl ParseError
   \<and> [''prog.fasm'' \<mapsto> ''push 1 @''] ''prog.fasm'' = Some ''push 1 @''
   \<and> fasm (\<lambda>s. s) (\<lambda>s. s) ''prog.fasm'' ''a.cfg'' [''prog.fasm'' \<mapsto> ''push 1 @'']
       = (Some ParseError, [''prog.fasm'' \<mapsto> ''push 1 @''])
   \<and> '' push 1 add'' = takeWhile is_space '' push 1 add'' @ concat [''push 1 '', ''add'']
   \<and> statements (\<lambda>s. s) [''push 1 '', ''add'']
        [OpcodeNode ''push'' (Some (AInt 1)), OpcodeNode ''add'' None] []
   \<and> parse (program (\<lambda>s. s)) '' push 1 add''
       = Inr [OpcodeNode ''push'' (Some (AInt 1)), OpcodeNode ''add'' None]"
  (is "?M \<and> ?N \<and> ?E \<and> ?F \<and> ?O \<and> ?C \<and> ?S \<and> ?P")
proof -
  have m: ?M by code_simp
  have n: ?N by simp
  have f: ?F by simp
  have c: ?C by code_simp
  have s: ?S by code_simp
  note bad = parse_all_or_nothing [where to_float = "\<lambda>s. s" and float_str = "\<lambda>s. s"
      and source_code = "''push 1 @''" and ast = "[OpcodeNode ''push'' (Some (AInt 1))]"
      and r = "''@''" and e = ParseError and files = "[''prog.fasm'' \<mapsto> ''push 1 @'']"
      and input_file = "''prog.fasm''" and output_file = "''a.cfg''"]
  note good = parse_all_or_nothing [where to_float = "\<lambda>s. s" and float_str = "\<lambda>s. s"
      and source_code = "'' push 1 add''"
      and ast = "[OpcodeNode ''push'' (Some (AInt 1)), OpcodeNode ''add'' None]"]
  from bad m n have e: ?E by blast
  from bad e f have o: ?O by blast
  from good c s have p: ?P by blast
  from m n e f o c s p show ?thesis by (intro conjI)
qed

section \<open>Keywords and identifiers\<close>

lemma ident_char_word: "is_ident_char c \<Longrightarrow> is_word c"
  by (auto simp: is_ident_char_def is_ident_start_def is_digit_def is_word_def Let_def)

lemma ident_char_not_space: "is_ident_char c \<Longrightarrow> \<not> is_space c"
  by (auto simp: is_ident_char_def is_ident_start_def is_digit_def is_space_def Let_def)

lemma ident_start_not_digit: "is_ident_start c \<Longrightarrow> \<not> is_digit c"
  by (auto simp: is_ident_start_def is_digit_def Let_def)


lemma keyword_last_word: "w \<in> set keyword_list \<Longrightarrow> w \<noteq> [] \<and> is_word (last w)"
  by (auto simp: keyword_list_def is_word_def)

lemma literal_Some_iff:
  "literal w s = Some (a, r) \<longleftrightarrow>
     (take (length w) s = w
      \<and> word_boundary (if w = [] then None else Some (last w))
           (case drop (length w) s of [] \<Rightarrow> None | c # _ \<Rightarrow> Some c)
      \<and> a = w \<and> r = dropWhile is_space (drop (length w) s))"
  by (auto simp: literal_def token_def skip_def regex_word_def WHITESPACE_def)

lemma literal_keyword_ident_char:
  assumes "w \<in> set keyword_list" and "is_ident_char c"
  shows "literal w (w @ c # t) = None"
proof -
  from assms(1) have "w \<noteq> []" "is_word (last w)" by (simp_all add: keyword_last_word)
  moreover from assms(2) have "is_word c" by (rule ident_char_word)
  ultimately have "\<not> word_boundary (if w = [] then None else Some (last w))
      (case drop (length w) (w @ c # t) of [] \<Rightarrow> None | c # _ \<Rightarrow> Some c)"
    by (simp add: word_boundary_def)
  then have "literal w (w @ c # t) \<noteq> Some (a, r)" for a r
    unfolding literal_Some_iff by blast
  then show ?thesis by (cases "literal w (w @ c # t)") auto
qed

lemma literal_keyword_boundary:
  assumes "w \<in> set keyword_list" and "literal w s = Some (a, r)"
  shows "\<exists>t. s = w @ t \<and> (t = [] \<or> \<not> is_word (hd t)) \<and> a = w \<and> r = dropWhile is_space t"
proof -
  from assms(1) have w: "w \<noteq> []" "is_word (last w)" by (simp_all add: keyword_last_word)
  from assms(2) have tk: "take (length w) s = w"
    and b: "word_boundary (if w = [] then None else Some (last w))
           (case drop (length w) s of [] \<Rightarrow> None | c # _ \<Rightarrow> Some c)"
    and ar: "a = w" "r = dropWhile is_space (drop (length w) s)"
    unfolding literal_Some_iff by simp_all
  let ?t = "drop (length w) s"
  from tk have "s = w @ ?t" by (metis append_take_drop_id)
  moreover from b w have "?t = [] \<or> \<not> is_word (hd ?t)"
    by (cases ?t) (simp_all add: word_boundary_def)
  ultimately show ?thesis using ar by blast
qed

lemma IDENTIFIER_ident:
  assumes "is_ident_start c" and "list_all is_ident_char cs" and "t = [] \<or> \<not> is_ident_char (hd t)"
  shows "IDENTIFIER (c # cs @ t) = Some (c # cs, t)"
proof -
  from assms(3) have t: "takeWhile is_ident_char t = []" "dropWhile is_ident_char t = t"
    by (cases t; simp)+
  from assms(2) have "takeWhile is_ident_char (cs @ t) = cs @ takeWhile is_ident_char t"
    "dropWhile is_ident_char (cs @ t) = dropWhile is_ident_char t"
    by (simp_all add: list_all_iff)
  with t assms(1) show ?thesis by (simp add: IDENTIFIER_def)
qed

lemma statement_many_single:
  assumes "statement tf s = Some (n, [])"
  shows "statement_many tf s = ([n], [])"
  using assms by (simp add: statement_many.simps [of tf s] statement_many.simps [of tf "[]"] statement_Nil)

lemma parse_single:
  assumes "s = [] \<or> \<not> is_space (hd s)" and "statement tf s = Some (n, [])"
  shows "parse (program tf) s = Inr [n]"
proof -
  from assms(1) have "dropWhile is_space s = s" by (cases s) simp_all
  with statement_many_single [OF assms(2)] show ?thesis by (simp add: parse_program)
qed

lemma LABEL_store: "LABEL (''store '' @ t) = None"
  by (simp add: LABEL_def COLON_def comb_defs IDENTIFIER_def char_class_defs)

lemma OPCODE_alt_store:
  "OPCODE_alt tf (''store '' @ t) =
     (case IDENTIFIER (dropWhile is_space t) of None \<Rightarrow> None
      | Some (a, r) \<Rightarrow> Some (Two ''store_l'' (AStr a), r))"
  by (simp add: grammar_defs comb_defs char_class_defs split: option.splits)

lemma statement_store:
  assumes "is_ident_start c" and "list_all is_ident_char cs"
  shows "statement tf (''store '' @ c # cs) = Some (OpcodeNode ''store_l'' (Some (AStr (c # cs))), [])"
proof -
  from assms(1) have "\<not> is_space c" by (simp add: ident_char_not_space is_ident_char_def)
  then have "dropWhile is_space (c # cs) = c # cs" by simp
  moreover from IDENTIFIER_ident [OF assms, of "[]"] have "IDENTIFIER (c # cs) = Some (c # cs, [])"
    by simp
  ultimately have "OPCODE_alt tf (''store '' @ c # cs) = Some (Two ''store_l'' (AStr (c # cs)), [])"
    by (simp add: OPCODE_alt_store [simplified])
  then have "OPCODE tf (''store '' @ c # cs) = Some (OpcodeNode ''store_l'' (Some (AStr (c # cs))), [])"
    by (simp add: OPCODE_def token_def skip_def map_p_def WHITESPACE_def)
  then show ?thesis by (simp add: statement_def alt_def LABEL_store [simplified])
qed

text \<open>
  C8. A keyword followed at once by an identifier character is not matched by the
  keyword's parser; where the parser of a keyword succeeds, the text begins with the
  keyword and what follows is the end of the text or a character that is no word
  character. So an identifier given to \<^verbatim>\<open>store\<close>, whatever keyword it may begin with, is
  read whole as the operand.
\<close>

theorem keyword_needs_word_boundary:
  "(w \<in> set keyword_list \<longrightarrow> is_ident_char c \<longrightarrow> literal w (w @ c # t) = None)
   \<and> (w \<in> set keyword_list \<longrightarrow> literal w s = Some (a, r) \<longrightarrow>
        (\<exists>t. s = w @ t \<and> (t = [] \<or> \<not> is_word (hd t)) \<and> a = w \<and> r = dropWhile is_space t))
   \<and> (is_ident_start x \<longrightarrow> list_all is_ident_char xs \<longrightarrow>
        parse (program to_float) (''store '' @ x # xs)
          = Inr [OpcodeNode ''store_l'' (Some (AStr (x # xs)))])"
proof (intro conjI impI)
  show "literal w (w @ c # t) = None" if "w \<in> set keyword_list" "is_ident_char c"
    using that by (rule literal_keyword_ident_char)
  show "\<exists>t. s = w @ t \<and> (t = [] \<or> \<not> is_word (hd t)) \<and> a = w \<and> r = dropWhile is_space t"
    if "w \<in> set keyword_list" "literal w s = Some (a, r)"
    using that by (rule literal_keyword_boundary)
  show "parse (program to_float) (''store '' @ x # xs)
          = Inr [OpcodeNode ''store_l'' (Some (AStr (x # xs)))]"
    if "is_ident_start x" "list_all is_ident_char xs"
    using statement_store [OF that, of to_float]
    by (intro parse_single) (simp_all add: is_space_def)
qed

text \<open>\<^verbatim>\<open>pop\<close> does not match in \<^verbatim>\<open>popular\<close>, and \<^verbatim>\<open>store popular\<close> has the operand
  \<^verbatim>\<open>popular\<close>.\<close>

theorem keyword_needs_word_boundary_witness:
  "''pop'' \<in> set keyword_list \<and> is_ident_char CHR ''u''
   \<and> literal ''pop'' (''pop'' @ CHR ''u'' # ''lar'') = None
   \<and> literal ''pop'' ''pop add'' = Some (''pop'', ''add'')
   \<and> (\<exists>t. ''pop add'' = ''pop'' @ t \<and> (t = [] \<or> \<not> is_word (hd t)) \<and> ''pop'' = ''pop''
          \<and> ''add'' = dropWhile is_space t)
   \<and> is_ident_start CHR ''p'' \<and> list_all is_ident_char ''opular''
   \<and> parse (program (\<lambda>s. s)) (''store '' @ CHR ''p'' # ''opular'')
       = Inr [OpcodeNode ''store_l'' (Some (AStr (CHR ''p'' # ''opular'')))]"
  (is "?K \<and> ?I \<and> ?N \<and> ?L \<and> ?B \<and> ?S \<and> ?A \<and> ?P")
proof -
  have k: ?K by (simp add: keyword_list_def)
  have i: ?I by code_simp
  have l: ?L by code_simp
  have s: ?S by code_simp
  have a: ?A by code_simp
  note t = keyword_needs_word_boundary [where w = "''pop''" and c = "CHR ''u''" and t = "''lar''"
      and s = "''pop add''" and a = "''pop''" and r = "''add''" and x = "CHR ''p''"
      and xs = "''opular''" and to_float = "\<lambda>s. s"]
  from t k i have n: ?N by blast
  from t k l have b: ?B by blast
  from t s a have p: ?P by blast
  from k i n l b s a p show ?thesis by (intro conjI)
qed

section \<open>Labels named like opcodes\<close>

lemma statement_label:
  assumes "is_ident_start c" and "list_all is_ident_char cs"
  shows "statement (tf :: string \<Rightarrow> 'f) (c # cs @ '':'' @ rest)
    = Some (LabelNode (c # cs), dropWhile is_space rest)"
proof -
  have "\<not> is_ident_char CHR '':''"
    by (simp add: is_ident_char_def is_ident_start_def is_digit_def)
  with IDENTIFIER_ident [OF assms, of "'':'' @ rest"]
  have "IDENTIFIER (c # cs @ '':'' @ rest) = Some (c # cs, '':'' @ rest)" by simp
  then have "LABEL (c # cs @ '':'' @ rest)
      = Some (LabelNode (c # cs) :: 'f node, dropWhile is_space rest)"
    by (simp add: LABEL_def label_def COLON_def map_p_def token_def skip_def string_p_def
        WHITESPACE_def)
  then show ?thesis by (simp add: statement_def alt_def)
qed

lemma assemble_label_only:
  assumes "parse (program tf) s = Inr [LabelNode l]"
  shows "assemble tf fs s = Inr []"
  using assms by (simp add: assemble_def)

text \<open>
  C10. An identifier followed at once by a colon, at the start of a statement, is read
  as a label node with that name, whatever the identifier is, an opcode mnemonic
  included: \<^verbatim>\<open>add:\<close> is the label \<^verbatim>\<open>add\<close>, bound to address 0, and no instruction.
\<close>

theorem label_before_opcode:
  "(is_ident_start c \<longrightarrow> list_all is_ident_char cs \<longrightarrow>
      statement to_float (c # cs @ '':'' @ rest)
        = Some (LabelNode (c # cs), dropWhile is_space rest))
   \<and> parse (program to_float) ''add:'' = Inr [LabelNode ''add'']
   \<and> label_table [LabelNode ''add''] ''add'' = Some 0
   \<and> instruction_count [LabelNode ''add''] = 0
   \<and> assemble to_float float_str ''add:'' = Inr []"
proof (intro conjI impI)
  show "statement to_float (c # cs @ '':'' @ rest) = Some (LabelNode (c # cs), dropWhile is_space rest)"
    if "is_ident_start c" "list_all is_ident_char cs"
    using that by (rule statement_label)
  have "is_ident_start CHR ''a''" "list_all is_ident_char ''dd''"
    by (simp_all add: is_ident_char_def is_ident_start_def)
  from statement_label [OF this, of to_float "[]"]
  have "statement to_float ''add:'' = Some (LabelNode ''add'', [])" by simp
  then show p: "parse (program to_float) ''add:'' = Inr [LabelNode ''add'']"
    by (intro parse_single) (simp_all add: is_space_def)
  then show "assemble to_float float_str ''add:'' = Inr []"
    by (rule assemble_label_only)
  show "label_table [LabelNode ''add''] ''add'' = Some 0"
    by (simp add: label_table_def)
  show "instruction_count [LabelNode ''add''] = 0" by simp
qed

text \<open>In \<^verbatim>\<open>add: add\<close> the first \<^verbatim>\<open>add\<close> is a label and the second an instruction.\<close>

theorem label_before_opcode_witness:
  "is_ident_start CHR ''a'' \<and> list_all is_ident_char ''dd''
   \<and> statement (\<lambda>s. s) (CHR ''a'' # ''dd'' @ '':'' @ '' add'')
       = Some (LabelNode (CHR ''a'' # ''dd''), dropWhile is_space '' add'')
   \<and> statement (\<lambda>s. s) ''add: add'' = Some (LabelNode ''add'', ''add'')
   \<and> parse (program (\<lambda>s. s)) ''add: add'' = Inr [LabelNode ''add'', OpcodeNode ''add'' None]"
  (is "?S \<and> ?A \<and> ?T \<and> ?U \<and> ?P")
proof -
  have s: ?S by code_simp
  have a: ?A by code_simp
  have u: ?U by code_simp
  have p: ?P by code_simp
  note t = label_before_opcode [where c = "CHR ''a''" and cs = "''dd''" and rest = "'' add''"
      and to_float = "\<lambda>s. s"]
  from t s a have t': ?T by blast
  from s a t' u p show ?thesis by (intro conjI)
qed

section \<open>String operands of push\<close>











section \<open>Numeric operands of push\<close>














end
